theory Spec2Isabelle
  imports Main "HOL-Library.Sublist" "HOL-Library.AList"
begin

section \<open>JavaScript values\<close>

text \<open>
  A function value has an identity. \<open>Native k\<close> is a function that exists outside this
  module (the console's own methods, for instance); \<open>Wrapper m k\<close> is the closure that the
  \<open>k\<close>-th run of \<open>overrideConsole\<close> creates for the console method \<open>m\<close>
  (\<open>alias\<close>, \<open>log\<close> or \<open>dir\<close> in the source). Two closures of different runs are
  different objects.
\<close>

datatype fn = Native nat | Wrapper string nat

datatype jsval =
    JUndefined
  | JNull
  | JBool bool
  | JNum int
  | JStr string
  | JFun fn
  | JObj nat

text \<open>JavaScript's ToBoolean on the values above (numbers are integers here).\<close>

fun truthy :: "jsval \<Rightarrow> bool" where
  "truthy JUndefined = False"
| "truthy JNull = False"
| "truthy (JBool b) = b"
| "truthy (JNum n) = (n \<noteq> 0)"
| "truthy (JStr s) = (s \<noteq> [])"
| "truthy (JFun f) = True"
| "truthy (JObj k) = True"

section \<open>String primitives of the language\<close>

text \<open>
  Strings are lists of characters (code units below 256; every string of the source and of
  the properties below is ASCII). \<open>first_index pat s\<close> is the position of the first
  occurrence of \<open>pat\<close> in \<open>s\<close>, as \<open>String.prototype.indexOf\<close> and
  \<open>String.prototype.replace\<close> with a string pattern find it.
\<close>

fun first_index :: "string \<Rightarrow> string \<Rightarrow> nat option" where
  "first_index pat [] = (if pat = [] then Some 0 else None)"
| "first_index pat (c # cs) =
     (if prefix pat (c # cs) then Some 0 else map_option Suc (first_index pat cs))"

text \<open>\<open>str.indexOf(pat, start)\<close>: the start position is clamped to \<open>0 .. str.length\<close>;
  the result is \<open>-1\<close> when there is no occurrence.\<close>

definition indexOf :: "string \<Rightarrow> string \<Rightarrow> int \<Rightarrow> int" where
  "indexOf str pat start =
     (let k = min (nat start) (length str)
      in case first_index pat (drop k str) of
           None \<Rightarrow> - 1
         | Some i \<Rightarrow> int (i + k))"

text \<open>\<open>str.replace(pat, rep)\<close> with a string pattern: only the first occurrence is
  replaced. (The source only ever passes the empty replacement.)\<close>

definition replace_first :: "string \<Rightarrow> string \<Rightarrow> string \<Rightarrow> string" where
  "replace_first str pat rep =
     (case first_index pat str of
        None \<Rightarrow> str
      | Some i \<Rightarrow> take i str @ rep @ drop (i + length pat) str)"

text \<open>\<open>str.replace(/pat/g, rep)\<close> for a literal, non-empty pattern: matches are found left
  to right and the search resumes after the end of each match.\<close>

fun replace_all :: "string \<Rightarrow> string \<Rightarrow> string \<Rightarrow> string" where
  "replace_all pat rep [] = []"
| "replace_all pat rep (c # cs) =
     (if pat \<noteq> [] \<and> prefix pat (c # cs)
      then rep @ replace_all pat rep (drop (length pat - 1) cs)
      else c # replace_all pat rep cs)"

text \<open>\<open>str.replace(/[abc]/g, r)\<close> for a character class and a one-character replacement.\<close>

definition replace_chars :: "char set \<Rightarrow> char \<Rightarrow> string \<Rightarrow> string" where
  "replace_chars cls r str = map (\<lambda>c. if c \<in> cls then r else c) str"

text \<open>\<open>String.prototype.trim\<close>: white space and line terminators among the characters
  below 256 are TAB, LF, VT, FF, CR, space and the no-break space.\<close>

definition is_space :: "char \<Rightarrow> bool" where
  "is_space c = (c \<in> {CHR 0x09, CHR 0x0A, CHR 0x0B, CHR 0x0C, CHR 0x0D, CHR 0x20, CHR 0xA0})"

definition trim :: "string \<Rightarrow> string" where
  "trim str = rev (dropWhile is_space (rev (dropWhile is_space str)))"

section \<open>The module: constants and \<open>endsWith\<close>\<close>

definition ALIASES :: "string list" where
  "ALIASES = [''trace'', ''debug'', ''info'', ''warn'', ''error'']"

definition METHOD_NAMES :: "string list" where
  "METHOD_NAMES = [''trace'', ''debug'', ''dir'', ''error'', ''info'', ''log'', ''warn'']"

definition DBUG_LEVELS :: "string list" where
  "DBUG_LEVELS = [''debug'', ''info'', ''warn'', ''error'']"

definition endsWith :: "string \<Rightarrow> string \<Rightarrow> bool" where
  "endsWith str suffix' =
     (indexOf str suffix' (int (length str) - int (length suffix')) \<noteq> - 1)"

section \<open>Levels embedded in a logger name\<close>

text \<open>\<open>getLoggerLevel\<close> walks \<open>DBUG_LEVELS\<close> from its last entry to its first
  (\<open>while (i--)\<close>) and falls back to \<open>debug\<close>.\<close>

fun level_loop :: "string \<Rightarrow> string list \<Rightarrow> string" where
  "level_loop name [] = ''debug''"
| "level_loop name (level # levels) =
     (if endsWith name (''.'' @ level) then level else level_loop name levels)"

definition getLoggerLevel :: "string \<Rightarrow> string" where
  "getLoggerLevel name = level_loop name (rev DBUG_LEVELS)"

text \<open>\<open>dbugName\<close> receives \<open>false\<close>, \<open>undefined\<close> or a string; \<open>None\<close> stands for the two
  values that are not strings, and for the \<open>undefined\<close> it returns.\<close>

definition dbugName :: "string option \<Rightarrow> string option" where
  "dbugName name =
     (case name of
        None \<Rightarrow> None
      | Some n \<Rightarrow>
          if n = [] then None
          else if indexOf n ''.'' 0 = - 1 then Some n
          else Some (replace_first n (''.'' @ getLoggerLevel n) ''''))"

section \<open>The \<open>path\<close> module of the platform (POSIX flavour)\<close>

text \<open>
  \<open>path\<close> is the run-time's own module, not code of this repository. The functions below
  follow its POSIX implementation: paths are split at \<open>/\<close>, empty segments are dropped,
  \<open>.\<close> and \<open>..\<close> are resolved from the right with a counter of pending \<open>..\<close>.
\<close>

text \<open>\<open>str.split(sep)\<close> for a one-character separator, and \<open>arr.join(sep)\<close>.\<close>

fun split_on :: "char \<Rightarrow> string \<Rightarrow> string list" where
  "split_on sep [] = [[]]"
| "split_on sep (c # cs) =
     (if c = sep then [] # split_on sep cs
      else (case split_on sep cs of
              [] \<Rightarrow> [[c]]
            | w # ws \<Rightarrow> (c # w) # ws))"

fun join_with :: "string \<Rightarrow> string list \<Rightarrow> string" where
  "join_with sep [] = []"
| "join_with sep [w] = w"
| "join_with sep (w # v # ws) = w @ sep @ join_with sep (v # ws)"

definition segments :: "string \<Rightarrow> string list" where
  "segments p = filter (\<lambda>q. q \<noteq> []) (split_on (CHR ''/'') p)"

text \<open>\<open>normalizeArray\<close>: the loop runs from the last part to the first; the pair is
  (\<open>up\<close>, the parts kept so far).\<close>

definition norm_step :: "string \<Rightarrow> nat \<times> string list \<Rightarrow> nat \<times> string list" where
  "norm_step part acc =
     (case acc of (up, kept) \<Rightarrow>
        if part = ''.'' then (up, kept)
        else if part = ''..'' then (Suc up, kept)
        else if up \<noteq> 0 then (up - 1, kept)
        else (up, part # kept))"

definition normalizeArray :: "string list \<Rightarrow> bool \<Rightarrow> string list" where
  "normalizeArray parts allowAboveRoot =
     (case foldr norm_step parts (0, []) of (up, kept) \<Rightarrow>
        if allowAboveRoot then replicate up ''..'' @ kept else kept)"

definition isAbsolute :: "string \<Rightarrow> bool" where
  "isAbsolute p = (case p of [] \<Rightarrow> False | c # _ \<Rightarrow> c = CHR ''/'')"

text \<open>\<open>path.resolve\<close>: the arguments are read from the last to the first, then the
  working directory, until an absolute one is met; empty ones are skipped.\<close>

fun resolve_loop :: "string list \<Rightarrow> string \<times> bool \<Rightarrow> string \<times> bool" where
  "resolve_loop [] acc = acc"
| "resolve_loop (p # ps) (resolvedPath, resolvedAbsolute) =
     (if resolvedAbsolute then (resolvedPath, resolvedAbsolute)
      else if p = [] then resolve_loop ps (resolvedPath, resolvedAbsolute)
      else resolve_loop ps (p @ ''/'' @ resolvedPath, isAbsolute p))"

definition path_resolve :: "string \<Rightarrow> string list \<Rightarrow> string" where
  "path_resolve wd args =
     (case resolve_loop (rev args @ [wd]) ([], False) of (resolvedPath, resolvedAbsolute) \<Rightarrow>
        let r = (if resolvedAbsolute then ''/'' else [])
                @ join_with ''/'' (normalizeArray (segments resolvedPath) (\<not> resolvedAbsolute))
        in if r = [] then ''.'' else r)"

definition path_normalize :: "string \<Rightarrow> string" where
  "path_normalize p =
     (let trailingSlash = (p \<noteq> [] \<and> last p = CHR ''/'');
          q = join_with ''/'' (normalizeArray (segments p) (\<not> isAbsolute p));
          q = (if q = [] \<and> \<not> isAbsolute p then ''.'' else q);
          q = (if q \<noteq> [] \<and> trailingSlash then q @ ''/'' else q)
      in (if isAbsolute p then ''/'' else []) @ q)"

definition path_join :: "string list \<Rightarrow> string" where
  "path_join args = path_normalize (join_with ''/'' (filter (\<lambda>p. p \<noteq> []) args))"

text \<open>\<open>path.relative\<close>: both paths are resolved, the leading \<open>/\<close> is cut off, and the
  parts are compared. \<open>trim_parts\<close> is its local \<open>trim\<close>, with
  \<open>arr.slice(start, end - start + 1)\<close> as written there.\<close>

definition trim_parts :: "string list \<Rightarrow> string list" where
  "trim_parts arr =
     (let start = length (takeWhile (\<lambda>p. p = []) arr);
          stop = length arr - length (takeWhile (\<lambda>p. p = []) (rev arr))
      in if stop \<le> start then []
         else take (stop - start - start) (drop start arr))"

fun samePartsLength :: "string list \<Rightarrow> string list \<Rightarrow> nat" where
  "samePartsLength (x # xs) (y # ys) = (if x \<noteq> y then 0 else Suc (samePartsLength xs ys))"
| "samePartsLength _ _ = 0"

definition path_relative :: "string \<Rightarrow> string \<Rightarrow> string \<Rightarrow> string" where
  "path_relative wd from to =
     (let fromParts = trim_parts (split_on (CHR ''/'') (drop 1 (path_resolve wd [from])));
          toParts = trim_parts (split_on (CHR ''/'') (drop 1 (path_resolve wd [to])));
          same = samePartsLength fromParts toParts
      in join_with ''/''
           (replicate (length fromParts - same) ''..'' @ drop same toParts))"

text \<open>\<open>path.basename\<close> and \<open>path.extname\<close>: the base name is the last run of characters
  other than \<open>/\<close>, trailing slashes apart; the extension starts at the last dot of the base
  name, unless that dot is its first character or the base name is \<open>..\<close>.\<close>

definition path_basename :: "string \<Rightarrow> string" where
  "path_basename p =
     rev (takeWhile (\<lambda>c. c \<noteq> CHR ''/'') (dropWhile (\<lambda>c. c = CHR ''/'') (rev p)))"

definition path_extname :: "string \<Rightarrow> string" where
  "path_extname p =
     (let b = path_basename p;
          after = takeWhile (\<lambda>c. c \<noteq> CHR ''.'') (rev b)
      in if b = ''..'' \<or> length b \<le> Suc (length after) then []
         else CHR ''.'' # rev after)"

text \<open>Two notions for stating facts about paths: a plain segment is non-empty and has
  no \<open>/\<close>; \<open>spelled wd p\<close> is the path \<open>path.resolve\<close> normalises for the one
  argument \<open>p\<close> (the working directory is put in front of a relative one).\<close>

definition plain :: "string \<Rightarrow> bool" where
  "plain w = (w \<noteq> [] \<and> CHR ''/'' \<notin> set w)"

definition spelled :: "string \<Rightarrow> string \<Rightarrow> string" where
  "spelled wd p = (if isAbsolute p then p else wd @ ''/'' @ p)"

section \<open>Collaborators\<close>

text \<open>
  What the module reads from its surroundings and from the libraries it requires, none of
  them code of this repository: its own file name (\<open>__filename\<close>), the working directory
  (\<open>process.cwd()\<close>, which \<open>path\<close> uses for relative paths), \<open>chalk.stripColor\<close>,
  \<open>utcstring\<close> (\<open>utc_get s\<close> is the timestamp \<open>utc.get(s)\<close> finds in \<open>s\<close>, \<open>None\<close> when
  \<open>utc.has(s)\<close> is false), the name \<open>intel.getLogger(n)._name\<close> under which the registry
  holds the logger it returns for \<open>n\<close>, and the string conversion of functions and objects.
\<close>

record ext =
  self_file :: string
  cwd :: string
  stripColor :: "string \<Rightarrow> string"
  utc_get :: "string \<Rightarrow> string option"
  logger_name :: "string \<Rightarrow> string"
  render :: "jsval \<Rightarrow> string"

datatype error = TypeError

section \<open>Name resolution: \<open>getLoggerName\<close>\<close>

text \<open>A stack frame is read through \<open>getFileName()\<close> only: \<open>None\<close> is a frame without a
  file name (\<open>null\<close> or \<open>undefined\<close>, as for native code).\<close>

type_synonym frame = "string option"

text \<open>\<open>skip\<close>, the function local to \<open>getLoggerName\<close>. With a non-empty \<open>debug\<close> list the
  call \<open>endsWith(name, d)\<close> reads \<open>name.indexOf\<close>, which raises on a missing name.\<close>

definition skip :: "ext \<Rightarrow> string list \<Rightarrow> frame \<Rightarrow> error + bool" where
  "skip E debug name =
     (if name = Some (self_file E) \<or> name = Some ''console.js'' then Inr True
      else if debug = [] then Inr False
      else (case name of
              None \<Rightarrow> Inl TypeError
            | Some n \<Rightarrow> Inr (list_ex (\<lambda>d. endsWith n d) debug)))"

text \<open>The \<open>for\<close> loop over the trace; the last argument is \<open>filename\<close> as assigned so far.\<close>

fun walk :: "ext \<Rightarrow> string list \<Rightarrow> frame list \<Rightarrow> frame \<Rightarrow> error + frame" where
  "walk E debug [] filename = Inr filename"
| "walk E debug (f # fs) filename =
     (case skip E debug f of
        Inl e \<Rightarrow> Inl e
      | Inr True \<Rightarrow> walk E debug fs f
      | Inr False \<Rightarrow> Inr f)"

text \<open>Lines 79 to 88: the dotted module name of the attributed file.\<close>

definition moduleName_of :: "ext \<Rightarrow> string \<Rightarrow> string \<Rightarrow> string" where
  "moduleName_of E rt filename =
     (let topName = path_basename rt;
          topName = replace_first topName (path_extname topName) [];
          moduleName = path_join [topName, path_relative (cwd E) rt filename];
          moduleName = replace_first moduleName (path_extname moduleName) [];
          moduleName = replace_chars {CHR 0x5C, CHR ''/''} (CHR ''.'') moduleName
      in replace_all ''.lib.'' ''.'' moduleName)"

definition debug_paths :: "string option \<Rightarrow> string list" where
  "debug_paths debugName =
     (case debugName of
        None \<Rightarrow> []
      | Some d \<Rightarrow>
          if d = [] then []
          else [path_join [''node_modules'', ''debug'', ''lib'', ''debug.js''],
                path_join [''node_modules'', ''dbug'', ''lib'', ''dbug.js'']])"

text \<open>\<open>getLoggerName\<close>: \<open>rt\<close> is the module's variable \<open>root\<close>, \<open>tr\<close> the trace
  \<open>stack.get()\<close> returns. \<open>path.relative\<close> refuses an argument that is not a string.\<close>

definition getLoggerName :: "ext \<Rightarrow> string \<Rightarrow> string option \<Rightarrow> frame list \<Rightarrow> error + string" where
  "getLoggerName E rt debugName tr =
     (case walk E (debug_paths debugName) tr None of
        Inl e \<Rightarrow> Inl e
      | Inr None \<Rightarrow> Inl TypeError
      | Inr (Some filename) \<Rightarrow>
          let moduleName = moduleName_of E rt filename
          in (case debugName of
                None \<Rightarrow> Inr moduleName
              | Some d \<Rightarrow>
                  if d = [] then Inr moduleName
                  else if endsWith moduleName d then Inr moduleName
                  else Inr (moduleName @ ''.'' @ d)))"

section \<open>Parsing a debug message: \<open>parseDebug\<close>\<close>

fun dec_digits :: "nat \<Rightarrow> string" where
  "dec_digits n =
     (if n < 10 then [char_of (48 + n)]
      else dec_digits (n div 10) @ [char_of (48 + n mod 10)])"

definition show_int :: "int \<Rightarrow> string" where
  "show_int i = (if i < 0 then ''-'' @ dec_digits (nat (- i)) else dec_digits (nat i))"

text \<open>\<open>String(v)\<close>; numbers are integers and print in decimal.\<close>

definition to_String :: "ext \<Rightarrow> jsval \<Rightarrow> string" where
  "to_String E v =
     (case v of
        JUndefined \<Rightarrow> ''undefined''
      | JNull \<Rightarrow> ''null''
      | JBool b \<Rightarrow> (if b then ''true'' else ''false'')
      | JNum n \<Rightarrow> show_int n
      | JStr s \<Rightarrow> s
      | _ \<Rightarrow> render E v)"

definition ESC :: char where
  "ESC = CHR 0x1B"

definition is_digit :: "char \<Rightarrow> bool" where
  "is_digit c = (c \<in> set ''0123456789'')"

definition line_terminator :: "char \<Rightarrow> bool" where
  "line_terminator c = (c = CHR 0x0A \<or> c = CHR 0x0D)"

text \<open>
  \<open>str.match(DEBUG_COLORED_RE)\<close>: the two capture groups, or \<open>None\<close>. The expression is
  \<open>^\<close>, two spaces, \<open>ESC [ 9 digit m\<close>, \<open>(.+)\<close>, \<open>ESC [ 9 0 m\<close>, \<open>(.+)\<close>, \<open>$\<close>. A dot matches
  no line terminator (LF and CR, among the characters below 256) and the first group is
  greedy, so the groups are split at the last \<open>ESC[90m\<close> that leaves both of them
  non-empty.
\<close>

definition DEBUG_COLORED_RE :: "string \<Rightarrow> (string \<times> string) option" where
  "DEBUG_COLORED_RE str =
     (let rest = drop 7 str
      in if 7 \<le> length str \<and> take 5 str = ''  '' @ [ESC] @ ''[9''
            \<and> is_digit (str ! 5) \<and> str ! 6 = CHR ''m''
            \<and> \<not> list_ex line_terminator rest
         then (case filter (\<lambda>i. take 5 (drop i rest) = ESC # ''[90m'' \<and> i + 5 < length rest)
                      (rev [1..<length rest]) of
                 [] \<Rightarrow> None
               | i # _ \<Rightarrow> Some (take i rest, drop (i + 5) rest))
         else None)"

text \<open>\<open>parseDebug\<close> returns the logger name (\<open>None\<close> for \<open>undefined\<close>) and the argument list
  as it leaves it: \<open>args[0] = msg\<close> writes in place. (On an empty \<open>arguments\<close> object the
  write does not change its length, so the list stays empty.)\<close>

definition parseDebug :: "ext \<Rightarrow> jsval list \<Rightarrow> string option \<times> jsval list" where
  "parseDebug E args =
     (let str = to_String E (case args of [] \<Rightarrow> JUndefined | a # _ \<Rightarrow> a)
      in case DEBUG_COLORED_RE str of
           Some (g1, g2) \<Rightarrow>
             let logger = trim (stripColor E g1);
                 msg = trim (stripColor E g2)
             in (Some (replace_chars {CHR '':''} (CHR ''.'') logger), args[0 := JStr msg])
         | None \<Rightarrow>
             (case utc_get E str of
                Some stamp \<Rightarrow>
                  let str = trim (replace_first str stamp []);
                      logger = takeWhile (\<lambda>c. c \<noteq> CHR '' '') str;
                      msg = trim (replace_first str logger [])
                  in (Some (replace_chars {CHR '':''} (CHR ''.'') logger), args[0 := JStr msg])
              | None \<Rightarrow> (None, args)))"

section \<open>The module's state\<close>

datatype hook = DbugOriginal | DbugHook

text \<open>
  \<open>console\<close> maps a property name to its value (\<open>JUndefined\<close> for a property the object
  does not have); \<open>ORIGINAL_METHODS\<close> lists its own properties in insertion order, the
  order \<open>for ... in\<close> visits them; \<open>env_DEBUG\<close> is \<open>process.env.DEBUG\<close>, \<open>dbug_log\<close> is
  \<open>dbug.__log\<close>, and \<open>installs\<close> counts the runs of \<open>overrideConsole\<close>, to tell their
  closures apart. \<open>root\<close> and \<open>ignore\<close> are read only by code that runs after
  \<open>overrideConsole\<close> has set them. The cache \<open>dbugLoggers\<close> and \<open>dbugHook\<close>, which none of
  the properties below reads, are left out.
\<close>

record state =
  console :: "string \<Rightarrow> jsval"
  ORIGINAL_METHODS :: "(string \<times> jsval) list"
  root :: string
  ignore :: "string list"
  isDebugging :: bool
  env_DEBUG :: "string option"
  dbug_log :: hook
  installs :: nat

definition prop_get :: "(string \<times> jsval) list \<Rightarrow> string \<Rightarrow> jsval" where
  "prop_get obj name = (case map_of obj name of None \<Rightarrow> JUndefined | Some v \<Rightarrow> v)"

definition copyProperties ::
  "(string \<Rightarrow> jsval) \<Rightarrow> (string \<times> jsval) list \<Rightarrow> string list \<Rightarrow> (string \<times> jsval) list" where
  "copyProperties source target props =
     fold (\<lambda>prop t. AList.update prop (source prop) t) props target"

definition setRoot :: "string \<Rightarrow> state \<Rightarrow> state" where
  "setRoot r s = s\<lparr>root := r\<rparr>"

definition setIgnore :: "string list \<Rightarrow> state \<Rightarrow> state" where
  "setIgnore i s = s\<lparr>ignore := i\<rparr>"

text \<open>\<open>setDebug\<close>. An assignment to \<open>process.env.DEBUG\<close> stores the string conversion of
  the value.\<close>

definition setDebug :: "ext \<Rightarrow> jsval \<Rightarrow> state \<Rightarrow> state" where
  "setDebug E debug s =
     (let s1 =
        (if debug = JBool True then s\<lparr>env_DEBUG := Some ''*''\<rparr>
         else if to_String E debug \<noteq> [] then
           (case env_DEBUG s of
              None \<Rightarrow> s\<lparr>env_DEBUG := Some (to_String E debug)\<rparr>
            | Some old \<Rightarrow>
                if old \<noteq> [] then s\<lparr>env_DEBUG := Some (old @ '','' @ to_String E debug)\<rparr>
                else s\<lparr>env_DEBUG := Some (to_String E debug)\<rparr>)
         else s)
      in s1\<lparr>isDebugging := truthy debug, dbug_log := DbugHook\<rparr>)"

section \<open>Dispatch: \<open>deliver\<close>\<close>

text \<open>
  What a call of \<open>deliver\<close> does to the outside, in order: \<open>GetLogger n\<close> is the call
  \<open>intel.getLogger(n)\<close>, \<open>LoggerCall n level args\<close> the call of the method \<open>level\<close> of the
  logger registered as \<open>n\<close>, \<open>OriginalCall f args\<close> the call of the saved console method
  \<open>f\<close>. The second component of the result is the exception that ended the call, if any.
  The last argument of \<open>deliver\<close> is the stack at the call of \<open>getLoggerName\<close>. (A call of
  the wrapper \<open>Wrapper m k\<close> is a call of \<open>deliver\<close> for \<open>m\<close>.)
\<close>

datatype event =
    GetLogger string
  | LoggerCall string string "jsval list"
  | OriginalCall fn "jsval list"

definition is_ignored :: "string list \<Rightarrow> string \<Rightarrow> bool" where
  "is_ignored ign name = list_ex (\<lambda>p. indexOf name p 0 = 0) (rev ign)"

text \<open>Lines 204 to 218: what \<open>deliver\<close> does once \<open>debugged\<close> is known (\<open>None\<close> for
  \<open>false\<close> and \<open>undefined\<close>) and \<open>args\<close> is as \<open>parseDebug\<close> left it.\<close>

definition dispatch ::
  "ext \<Rightarrow> state \<Rightarrow> string \<Rightarrow> string option \<Rightarrow> jsval list \<Rightarrow> frame list
   \<Rightarrow> event list \<times> error option" where
  "dispatch E s method' debugged args tr =
     (case getLoggerName E (root s) (dbugName debugged) tr of
        Inl e \<Rightarrow> ([], Some e)
      | Inr name \<Rightarrow>
          let name' = logger_name E name
          in if is_ignored (ignore s) name'
             then (case prop_get (ORIGINAL_METHODS s) method' of
                     JFun f \<Rightarrow> ([GetLogger name, OriginalCall f args], None)
                   | _ \<Rightarrow> ([GetLogger name], Some TypeError))
             else
               let m = (case debugged of
                          None \<Rightarrow> method'
                        | Some d \<Rightarrow> if d = [] then method' else getLoggerLevel d);
                   level = (if m \<in> set ALIASES then m else ''debug'')
               in ([GetLogger name, LoggerCall name' level args], None))"

text \<open>\<open>deliver\<close>: line 203, \<open>isDebugging && parseDebug(args)\<close>, then the rest.\<close>

definition deliver ::
  "ext \<Rightarrow> state \<Rightarrow> string \<Rightarrow> jsval list \<Rightarrow> frame list \<Rightarrow> event list \<times> error option" where
  "deliver E s method' args tr =
     (case (if isDebugging s then parseDebug E args else (None, args)) of
        (debugged, args') \<Rightarrow> dispatch E s method' debugged args' tr)"

section \<open>Installing and restoring: \<open>overrideConsole\<close>, \<open>restoreConsole\<close>\<close>

record options =
  opt_root :: "string option"
  opt_ignore :: "string list option"
  opt_debug :: jsval

definition no_options :: options where
  "no_options = \<lparr>opt_root = None, opt_ignore = None, opt_debug = JUndefined\<rparr>"

text \<open>\<open>options.root || path.join(stack.get()[1].getFileName(), '..')\<close>: the second frame of
  the trace is read only when no root is given; a trace without one, or a frame without a
  file name, raises.\<close>

definition caller_directory :: "frame list \<Rightarrow> error + string" where
  "caller_directory tr =
     (case drop 1 tr of
        Some f # _ \<Rightarrow> Inr (path_join [f, ''..''])
      | _ \<Rightarrow> Inl TypeError)"

definition root_option :: "options \<Rightarrow> frame list \<Rightarrow> error + string" where
  "root_option opts tr =
     (case opt_root opts of
        None \<Rightarrow> caller_directory tr
      | Some r \<Rightarrow> if r \<noteq> [] then Inr r else caller_directory tr)"

definition wrap :: "nat \<Rightarrow> string list \<Rightarrow> (string \<Rightarrow> jsval) \<Rightarrow> (string \<Rightarrow> jsval)" where
  "wrap k names c = fold (\<lambda>m c'. c'(m := JFun (Wrapper m k))) names c"

text \<open>\<open>options = options || {}\<close>.\<close>

definition given :: "options option \<Rightarrow> options" where
  "given options' = (case options' of None \<Rightarrow> no_options | Some opts \<Rightarrow> opts)"

definition overrideConsole ::
  "ext \<Rightarrow> options option \<Rightarrow> frame list \<Rightarrow> state \<Rightarrow> error + state" where
  "overrideConsole E options' tr s =
     (let opts = given options'
      in case root_option opts tr of
           Inl e \<Rightarrow> Inl e
         | Inr r \<Rightarrow>
             let s = setRoot r s;
                 s = setIgnore (case opt_ignore opts of None \<Rightarrow> [] | Some i \<Rightarrow> i) s;
                 s = setDebug E (opt_debug opts) s;
                 s = (if \<not> truthy (prop_get (ORIGINAL_METHODS s) ''log'')
                      then s\<lparr>ORIGINAL_METHODS :=
                               copyProperties (console s) (ORIGINAL_METHODS s) METHOD_NAMES\<rparr>
                      else s);
                 k = installs s
             in Inr (s\<lparr>console := wrap k (ALIASES @ [''log'', ''dir'']) (console s),
                       installs := Suc k\<rparr>))"

definition restoreConsole :: "state \<Rightarrow> state" where
  "restoreConsole s =
     s\<lparr>console :=
         fold (\<lambda>(name, v) c. if truthy v then c(name := v) else c) (ORIGINAL_METHODS s) (console s),
       ORIGINAL_METHODS := copyProperties (\<lambda>_. JUndefined) (ORIGINAL_METHODS s) METHOD_NAMES,
       dbug_log := DbugOriginal\<rparr>"

section \<open>A sample environment\<close>

text \<open>
  Concrete collaborators and states, for the instances below. \<open>strip_sgr\<close> removes the
  escape sequences \<open>ESC [ digits m\<close>, as a colour stripper does; \<open>console_of names\<close> is a
  console that has a native method for each of \<open>names\<close> and nothing else; \<open>loaded c\<close> is
  the module's state right after it was loaded with the console \<open>c\<close>.
\<close>

fun sgr_length :: "string \<Rightarrow> nat option" where
  "sgr_length (b # r) =
     (let ds = takeWhile is_digit r
      in if b = CHR ''['' \<and> ds \<noteq> [] \<and> take 1 (drop (length ds) r) = ''m''
         then Some (length ds + 2) else None)"
| "sgr_length [] = None"

fun strip_sgr :: "string \<Rightarrow> string" where
  "strip_sgr [] = []"
| "strip_sgr (c # cs) =
     (if c = ESC then (case sgr_length cs of
                         Some n \<Rightarrow> strip_sgr (drop n cs)
                       | None \<Rightarrow> c # strip_sgr cs)
      else c # strip_sgr cs)"

definition demo_ext :: ext where
  "demo_ext =
     \<lparr>self_file = ''/app/node_modules/intel/lib/console.js'', cwd = ''/app'',
      stripColor = strip_sgr, utc_get = (\<lambda>s. None), logger_name = (\<lambda>n. n),
      render = (\<lambda>v. ''[object Object]'')\<rparr>"

definition demo_options :: "jsval \<Rightarrow> options" where
  "demo_options d = \<lparr>opt_root = Some ''/home/u/connect'', opt_ignore = None, opt_debug = d\<rparr>"

definition console_of :: "string list \<Rightarrow> string \<Rightarrow> jsval" where
  "console_of names m =
     (if m \<in> set names then JFun (Native (length (takeWhile (\<lambda>n. n \<noteq> m) names)))
      else JUndefined)"

definition loaded :: "(string \<Rightarrow> jsval) \<Rightarrow> state" where
  "loaded c =
     \<lparr>console = c, ORIGINAL_METHODS = [], root = [], ignore = [], isDebugging = False,
      env_DEBUG = None, dbug_log = DbugOriginal, installs = 0\<rparr>"

text \<open>
  \<open>demo_state b\<close> is the state after
  \<open>overrideConsole({root: '/home/u/connect', ignore: ['connect'], debug: b})\<close> on the loaded
  module and a console with all seven methods; \<open>demo_trace\<close> is the stack of a call of
  \<open>console.log\<close> from \<open>lib/session.js\<close> under that root, as \<open>getLoggerName\<close> sees it
  (itself, \<open>deliver\<close> and the wrapper first).
\<close>

definition demo_state :: "bool \<Rightarrow> state" where
  "demo_state b =
     \<lparr>console = wrap 0 (ALIASES @ [''log'', ''dir'']) (console_of METHOD_NAMES),
      ORIGINAL_METHODS = map (\<lambda>m. (m, console_of METHOD_NAMES m)) METHOD_NAMES,
      root = ''/home/u/connect'', ignore = [''connect''], isDebugging = b,
      env_DEBUG = Some (if b then ''*'' else ''false''), dbug_log = DbugHook, installs = 1\<rparr>"

definition demo_trace :: "frame list" where
  "demo_trace =
     [Some (self_file demo_ext), Some (self_file demo_ext), Some (self_file demo_ext),
      Some ''/home/u/connect/lib/session.js'']"

text \<open>Two messages of the coloured shape: \<open>app:server\<close> with the text
  \<open>listening on port 3000\<close>, and one whose name group is a single space.\<close>

definition colored_message :: string where
  "colored_message = ''  '' @ [ESC] @ ''[94mapp:server'' @ [ESC] @ ''[90m listening on port 3000''"


text \<open>No original method is saved: every entry of \<open>ORIGINAL_METHODS\<close> is falsy, as it is
  after loading.\<close>

definition none_saved :: "state \<Rightarrow> bool" where
  "none_saved s = list_all (\<lambda>entry. \<not> truthy (snd entry)) (ORIGINAL_METHODS s)"

text \<open>The keys of \<open>ORIGINAL_METHODS\<close> are those of an object (no key twice) and among the
  seven method names, the only ones the module ever writes.\<close>

definition own_keys :: "state \<Rightarrow> bool" where
  "own_keys s = (distinct (map fst (ORIGINAL_METHODS s))
                 \<and> set (map fst (ORIGINAL_METHODS s)) \<subseteq> set METHOD_NAMES)"

section \<open>Facts about the string primitives\<close>

lemma first_index_bound:
  "first_index pat s = Some i \<Longrightarrow> i + length pat \<le> length s \<and> take (length pat) (drop i s) = pat"
proof (induction s arbitrary: i)
  case Nil
  then show ?case by (simp split: if_splits)
next
  case (Cons c cs)
  show ?case
  proof (cases "prefix pat (c # cs)")
    case True
    with Cons.prems have "i = 0" by simp
    moreover from True have "length pat \<le> length (c # cs)"
      by (rule prefix_length_le)
    moreover from True have "take (length pat) (c # cs) = pat"
      by (metis append_eq_conv_conj prefixE)
    ultimately show ?thesis by simp
  next
    case False
    with Cons.prems obtain j where j: "first_index pat cs = Some j" "i = Suc j"
      by auto
    from Cons.IH [OF j(1)] j(2) show ?thesis by simp
  qed
qed

lemma first_index_prefix: "prefix pat s \<Longrightarrow> first_index pat s = Some 0"
  by (cases s) auto

lemma endsWith_suffix: "endsWith str t = suffix t str"
proof (cases "length t \<le> length str")
  case True
  define k where "k = length str - length t"
  have len: "length (drop k str) = length t"
    using True by (simp add: k_def)
  have k: "min (nat (int (length str) - int (length t))) (length str) = k"
    using True by (simp add: k_def nat_diff_distrib')
  show ?thesis
  proof (cases "first_index t (drop k str)")
    case None
    then have "\<not> prefix t (drop k str)"
      using first_index_prefix by fastforce
    with len have "drop k str \<noteq> t" by auto
    then have "\<not> suffix t str"
      by (metis k_def suffix_def append_eq_conv_conj length_append add_diff_cancel_right'
          length_drop)
    with None k show ?thesis
      by (simp add: endsWith_def indexOf_def)
  next
    case (Some i)
    from first_index_bound [OF Some] len have "i = 0" and "take (length t) (drop k str) = t"
      by auto
    with len have "drop k str = t" by simp
    then have "suffix t str"
      by (metis suffix_drop)
    with Some k show ?thesis
      by (simp add: endsWith_def indexOf_def)
  qed
next
  case False
  then have k: "min (nat (int (length str) - int (length t))) (length str) = 0"
    by simp
  have "first_index t str = None"
  proof (cases "first_index t str")
    case (Some i)
    from first_index_bound [OF Some] False show ?thesis by simp
  qed simp
  moreover from False have "\<not> suffix t str"
    using suffix_length_le by blast
  ultimately show ?thesis
    using k by (simp add: endsWith_def indexOf_def)
qed

section \<open>Stripping the level from a name\<close>

lemma first_index_absent: "c \<notin> set s \<Longrightarrow> first_index [c] s = None"
  by (induction s) auto

lemma dbugName_no_dot: "n \<noteq> [] \<Longrightarrow> CHR ''.'' \<notin> set n \<Longrightarrow> dbugName (Some n) = Some n"
  by (simp add: dbugName_def indexOf_def first_index_absent)

text \<open>
  Claim C5. \<open>dbugName\<close> finds the level with \<open>endsWith\<close>, at the end of the name, and then
  removes the first occurrence of \<open>.level\<close> in the name, which need not be the trailing
  one: \<open>app.warnings.warn\<close> becomes \<open>appings.warn\<close> and \<open>app.warn.db.warn\<close> becomes
  \<open>app.db.warn\<close>; the trailing level segment is still there in both. The two examples of
  the claim come out as it says, and a non-empty name without a dot is returned unchanged
  (\<open>dbugName_no_dot\<close>).
\<close>

theorem dbugName_removes_first_occurrence:
  "dbugName (Some ''app.warnings.warn'') = Some ''appings.warn''
   \<and> dbugName (Some ''app.warn.db.warn'') = Some ''app.db.warn''
   \<and> getLoggerLevel ''app.warnings.warn'' = ''warn''
   \<and> dbugName (Some ''app.server.warn'') = Some ''app.server''
   \<and> dbugName (Some ''app'') = Some ''app''"
  by (simp add: dbugName_def getLoggerLevel_def DBUG_LEVELS_def endsWith_suffix suffix_def
      indexOf_def replace_first_def)

section \<open>Facts about the saved methods\<close>

lemma wrap_apply: "wrap k names c m = (if m \<in> set names then JFun (Wrapper m k) else c m)"
  unfolding wrap_def by (induction names arbitrary: c) auto

lemma update_mem: "(k, v) \<in> set (AList.update k v al)"
  by (induction al) auto

lemma update_keeps: "(k, v) \<in> set al \<Longrightarrow> k \<noteq> k' \<Longrightarrow> (k, v) \<in> set (AList.update k' v' al)"
  by (induction al) auto

lemma update_subset: "set (AList.update k v al) \<subseteq> insert (k, v) (set al)"
  by (induction al) auto

lemma copy_keeps:
  "(k, src k) \<in> set al \<Longrightarrow> (k, src k) \<in> set (copyProperties src al props)"
  unfolding copyProperties_def
proof (induction props arbitrary: al)
  case Nil
  then show ?case by simp
next
  case (Cons p ps)
  have "(k, src k) \<in> set (AList.update p (src p) al)"
  proof (cases "p = k")
    case True
    then show ?thesis by (simp add: update_mem)
  next
    case False
    with Cons.prems show ?thesis by (simp add: update_keeps)
  qed
  from Cons.IH [OF this] show ?case by simp
qed

lemma copy_has:
  "p \<in> set props \<Longrightarrow> (p, src p) \<in> set (copyProperties src al props)"
proof (induction props arbitrary: al)
  case Nil
  then show ?case by simp
next
  case (Cons q qs)
  show ?case
  proof (cases "p = q")
    case True
    have "(p, src p) \<in> set (copyProperties src (AList.update p (src p) al) qs)"
      by (rule copy_keeps) (rule update_mem)
    with True show ?thesis by (simp add: copyProperties_def)
  next
    case False
    with Cons.prems have "p \<in> set qs" by simp
    from Cons.IH [OF this, of "AList.update q (src q) al"] show ?thesis
      by (simp add: copyProperties_def)
  qed
qed

lemma copy_subset:
  "set (copyProperties src al props) \<subseteq> set al \<union> (\<lambda>p. (p, src p)) ` set props"
  unfolding copyProperties_def
proof (induction props arbitrary: al)
  case Nil
  then show ?case by simp
next
  case (Cons p ps)
  have "set (fold (\<lambda>prop. AList.update prop (src prop)) ps (AList.update p (src p) al))
        \<subseteq> set (AList.update p (src p) al) \<union> (\<lambda>p. (p, src p)) ` set ps"
    by (rule Cons.IH)
  with update_subset [of p "src p" al] show ?case by auto
qed

lemma copy_map_of:
  "map_of (copyProperties src al props) m = (if m \<in> set props then Some (src m) else map_of al m)"
  unfolding copyProperties_def
  by (induction props arbitrary: al) (auto simp: update_conv')

lemma restore_fold:
  assumes "\<forall>(k, v) \<in> set al. truthy v \<longrightarrow> v = f k"
  shows "fold (\<lambda>(name, v) c. if truthy v then c(name := v) else c) al c m
         = (if \<exists>v. (m, v) \<in> set al \<and> truthy v then f m else c m)"
  using assms
proof (induction al arbitrary: c)
  case Nil
  then show ?case by simp
next
  case (Cons e al)
  obtain k v where e: "e = (k, v)" by (cases e)
  from Cons.prems have rest: "\<forall>(k, v) \<in> set al. truthy v \<longrightarrow> v = f k" by simp
  from Cons.prems e have here: "truthy v \<Longrightarrow> v = f k" by simp
  show ?case
    using Cons.IH [OF rest] here e by auto
qed

lemma none_saved_log: "none_saved s \<Longrightarrow> \<not> truthy (prop_get (ORIGINAL_METHODS s) ''log'')"
  unfolding none_saved_def prop_get_def
  by (auto simp: list_all_iff split: option.splits dest!: map_of_SomeD)

lemma setDebug_frame:
  "console (setDebug E d s) = console s" "ORIGINAL_METHODS (setDebug E d s) = ORIGINAL_METHODS s"
  "installs (setDebug E d s) = installs s" "root (setDebug E d s) = root s"
  "ignore (setDebug E d s) = ignore s"
  "isDebugging (setDebug E d s) = truthy d" "dbug_log (setDebug E d s) = DbugHook"
  by (simp_all add: setDebug_def Let_def split: option.splits)

lemma install_fresh:
  assumes "none_saved s" and "overrideConsole E opts tr s = Inr s1"
  shows "ORIGINAL_METHODS s1 = copyProperties (console s) (ORIGINAL_METHODS s) METHOD_NAMES"
    and "console s1 = wrap (installs s) (ALIASES @ [''log'', ''dir'']) (console s)"
  using assms none_saved_log [OF assms(1)]
  by (auto simp: overrideConsole_def Let_def setDebug_frame setRoot_def setIgnore_def
      split: sum.splits)


lemma restore_saved:
  assumes saved: "ORIGINAL_METHODS s1 = copyProperties src al METHOD_NAMES"
    and falsy: "list_all (\<lambda>entry. \<not> truthy (snd entry)) al"
    and m: "m \<in> set METHOD_NAMES"
  shows "console (restoreConsole s1) m = (if truthy (src m) then src m else console s1 m)"
proof -
  let ?al = "ORIGINAL_METHODS s1"
  have sub: "set ?al \<subseteq> set al \<union> (\<lambda>p. (p, src p)) ` set METHOD_NAMES"
    unfolding saved by (rule copy_subset)
  have P: "\<forall>(k, v) \<in> set ?al. truthy v \<longrightarrow> v = src k"
  proof -
    have "v = src k" if kv: "(k, v) \<in> set ?al" and t: "truthy v" for k v
    proof -
      from kv sub have "(k, v) \<in> set al \<or> v = src k" by auto
      moreover from falsy t have "(k, v) \<notin> set al" by (auto simp: list_all_iff)
      ultimately show ?thesis by simp
    qed
    then show ?thesis by auto
  qed
  have has: "(m, src m) \<in> set ?al"
    unfolding saved using m by (rule copy_has)
  have "(\<exists>v. (m, v) \<in> set ?al \<and> truthy v) = truthy (src m)"
    using P has by auto
  then show ?thesis
    by (simp add: restoreConsole_def restore_fold [OF P])
qed

text \<open>
  Claim C1, as the code has it. From a state in which no original is saved, \<open>overrideConsole\<close>
  followed by \<open>restoreConsole\<close> gives each of the seven intercepted methods its value from
  before the call when that value was truthy; \<open>restoreConsole\<close> skips a saved value that is
  falsy, so a method the console did not have stays the wrapper that was installed.
\<close>

theorem install_restore_roundtrip:
  assumes "none_saved s" and "overrideConsole E opts tr s = Inr s1"
  shows "\<forall>m \<in> set METHOD_NAMES.
           console (restoreConsole s1) m
           = (if truthy (console s m) then console s m else JFun (Wrapper m (installs s)))"
proof
  fix m assume m: "m \<in> set METHOD_NAMES"
  have w: "console s1 m = JFun (Wrapper m (installs s))"
    using m by (simp add: install_fresh(2) [OF assms] wrap_apply ALIASES_def METHOD_NAMES_def, auto)
  from restore_saved [OF install_fresh(1) [OF assms] _ m] assms(1) w
  show "console (restoreConsole s1) m
        = (if truthy (console s m) then console s m else JFun (Wrapper m (installs s)))"
    by (simp add: none_saved_def)
qed


lemma overrideConsole_returns:
  assumes "opt_root opts = Some r" and "r \<noteq> []"
  shows "\<exists>s1. overrideConsole E (Some opts) tr s = Inr s1"
  using assms by (simp add: overrideConsole_def given_def root_option_def Let_def)

section \<open>Installing and restoring\<close>

text \<open>Sessions can repeat: loading establishes \<open>own_keys\<close> and \<open>none_saved\<close>,
  \<open>overrideConsole\<close> keeps \<open>own_keys\<close>, and \<open>restoreConsole\<close> establishes both again.\<close>

lemma copy_distinct:
  "distinct (map fst al) \<Longrightarrow> distinct (map fst (copyProperties src al props))"
  unfolding copyProperties_def
  by (induction props arbitrary: al) (simp_all add: distinct_update)

lemma copy_keys:
  "fst ` set (copyProperties src al props) \<subseteq> fst ` set al \<union> set props"
  using copy_subset [of src al props] by force

lemma own_keys_loaded: "own_keys (loaded c) \<and> none_saved (loaded c)"
  by (simp add: own_keys_def none_saved_def loaded_def)

lemma own_keys_install:
  assumes "own_keys s" and "overrideConsole E options' tr s = Inr s1"
  shows "own_keys s1"
proof -
  from assms(2) have "ORIGINAL_METHODS s1 = ORIGINAL_METHODS s
      \<or> ORIGINAL_METHODS s1 = copyProperties (console s) (ORIGINAL_METHODS s) METHOD_NAMES"
    by (auto simp: overrideConsole_def Let_def setDebug_frame setRoot_def setIgnore_def
        split: sum.splits if_splits)
  then show ?thesis
  proof
    assume "ORIGINAL_METHODS s1 = ORIGINAL_METHODS s"
    with assms(1) show ?thesis by (simp add: own_keys_def)
  next
    assume c: "ORIGINAL_METHODS s1 = copyProperties (console s) (ORIGINAL_METHODS s) METHOD_NAMES"
    from assms(1) have "distinct (map fst (ORIGINAL_METHODS s1))"
      unfolding c by (intro copy_distinct) (simp add: own_keys_def)
    moreover from assms(1) copy_keys [of "console s" "ORIGINAL_METHODS s" METHOD_NAMES]
    have "set (map fst (ORIGINAL_METHODS s1)) \<subseteq> set METHOD_NAMES"
      unfolding c by (auto simp: own_keys_def)
    ultimately show ?thesis by (simp add: own_keys_def)
  qed
qed

lemma restore_none_saved:
  assumes "own_keys s"
  shows "own_keys (restoreConsole s) \<and> none_saved (restoreConsole s)"
proof -
  let ?al = "copyProperties (\<lambda>_. JUndefined) (ORIGINAL_METHODS s) METHOD_NAMES"
  have al: "ORIGINAL_METHODS (restoreConsole s) = ?al" by (simp add: restoreConsole_def)
  from assms have d: "distinct (map fst ?al)"
    by (intro copy_distinct) (simp add: own_keys_def)
  from assms copy_keys [of "\<lambda>_. JUndefined" "ORIGINAL_METHODS s" METHOD_NAMES]
  have k: "fst ` set ?al \<subseteq> set METHOD_NAMES" by (auto simp: own_keys_def)
  have "v = JUndefined" if "(n, v) \<in> set ?al" for n v
  proof -
    from that k have "n \<in> set METHOD_NAMES" by force
    then have "map_of ?al n = Some JUndefined" by (simp add: copy_map_of)
    moreover from d that have "map_of ?al n = Some v" by simp
    ultimately show ?thesis by simp
  qed
  then have "\<not> truthy (snd entry)" if "entry \<in> set ?al" for entry
    using that by (cases entry) fastforce
  then have "none_saved (restoreConsole s)"
    unfolding none_saved_def al by (simp add: list_all_iff)
  moreover from d k have "own_keys (restoreConsole s)"
    unfolding own_keys_def al by auto
  ultimately show ?thesis by simp
qed

lemma demo_install: "\<exists>s1. overrideConsole E (Some (demo_options d)) tr s = Inr s1"
  by (rule overrideConsole_returns [of _ "''/home/u/connect''"]) (simp_all add: demo_options_def)

text \<open>An instance of C1: a console with all seven methods, installed and restored.\<close>

theorem install_restore_roundtrip_witness:
  "none_saved (loaded (console_of METHOD_NAMES))
   \<and> (\<exists>s1. overrideConsole demo_ext (Some (demo_options JUndefined)) [] (loaded (console_of METHOD_NAMES)) = Inr s1
        \<and> console (restoreConsole s1) ''log'' = JFun (Native 5))"
proof -
  let ?s = "loaded (console_of METHOD_NAMES)"
  have n: "none_saved ?s" by (simp add: none_saved_def loaded_def)
  obtain s1 where s1: "overrideConsole demo_ext (Some (demo_options JUndefined)) [] ?s = Inr s1"
    using demo_install by blast
  have "''log'' \<in> set METHOD_NAMES" by (simp add: METHOD_NAMES_def)
  with install_restore_roundtrip [OF n s1]
  have "console (restoreConsole s1) ''log''
        = (if truthy (console ?s ''log'') then console ?s ''log'' else JFun (Wrapper ''log'' (installs ?s)))"
    by blast
  then have "console (restoreConsole s1) ''log'' = JFun (Native 5)"
    by (simp add: loaded_def console_of_def METHOD_NAMES_def)
  with n s1 show ?thesis by blast
qed

text \<open>
  Claim C1 as stated fails for a console without \<open>debug\<close> (the consoles of the platform's
  older releases): \<open>console.debug\<close> was \<open>undefined\<close> before \<open>overrideConsole\<close> and is the
  installed wrapper after \<open>restoreConsole\<close>.
\<close>

theorem roundtrip_absent_method_counterexample:
  "\<exists>s1. overrideConsole demo_ext (Some (demo_options JUndefined)) []
          (loaded (console_of [''trace'', ''dir'', ''error'', ''info'', ''log'', ''warn''])) = Inr s1
        \<and> console (loaded (console_of [''trace'', ''dir'', ''error'', ''info'', ''log'', ''warn''])) ''debug''
            = JUndefined
        \<and> console (restoreConsole s1) ''debug'' = JFun (Wrapper ''debug'' 0)"
  by (simp add: overrideConsole_def given_def root_option_def demo_options_def Let_def setDebug_def
      setRoot_def setIgnore_def loaded_def prop_get_def copyProperties_def METHOD_NAMES_def
      ALIASES_def wrap_def restoreConsole_def console_of_def demo_ext_def to_String_def)



section \<open>Facts about the \<open>path\<close> module\<close>


lemma split_on_nonempty: "split_on sep s \<noteq> []"
  by (induction s) (auto split: list.splits)

lemma split_on_append: "split_on sep (s @ sep # t) = split_on sep s @ split_on sep t"
proof (induction s)
  case Nil
  then show ?case by simp
next
  case (Cons c s)
  obtain w ws where "split_on sep s = w # ws"
    using split_on_nonempty [of sep s] by (cases "split_on sep s") auto
  with Cons show ?case by simp
qed

lemma split_on_plain: "sep \<notin> set w \<Longrightarrow> split_on sep w = [w]"
  by (induction w) auto

lemma split_on_no_sep: "w \<in> set (split_on sep s) \<Longrightarrow> sep \<notin> set w"
proof (induction s arbitrary: w)
  case Nil
  then show ?case by simp
next
  case (Cons c s)
  obtain v vs where v: "split_on sep s = v # vs"
    using split_on_nonempty [of sep s] by (cases "split_on sep s") auto
  show ?case
  proof (cases "c = sep")
    case True
    with Cons show ?thesis by auto
  next
    case False
    with Cons.prems v have "w = c # v \<or> w \<in> set vs" by simp
    then show ?thesis
    proof
      assume "w = c # v"
      moreover have "sep \<notin> set v" using Cons.IH [of v] v by simp
      ultimately show ?thesis using False by simp
    next
      assume "w \<in> set vs"
      then show ?thesis using Cons.IH [of w] v by simp
    qed
  qed
qed

lemma segments_plain: "w \<in> set (segments s) \<Longrightarrow> plain w"
  by (auto simp: segments_def plain_def dest: split_on_no_sep)

lemma segments_append: "segments (s @ CHR ''/'' # t) = segments s @ segments t"
  by (simp add: segments_def split_on_append)

lemma segments_Nil: "segments [] = []"
  by (simp add: segments_def)

lemma split_join:
  "ws \<noteq> [] \<Longrightarrow> \<forall>w \<in> set ws. CHR ''/'' \<notin> set w
   \<Longrightarrow> split_on (CHR ''/'') (join_with ''/'' ws) = ws"
proof (induction ws rule: induct_list012)
  case 1
  then show ?case by simp
next
  case (2 w)
  then show ?case by (simp add: split_on_plain)
next
  case (3 w v ws)
  then show ?case
    using split_on_append [of "CHR ''/''" w "join_with ''/'' (v # ws)"]
    by (simp add: split_on_plain)
qed

lemma segments_join: "\<forall>w \<in> set ws. plain w \<Longrightarrow> segments (join_with ''/'' ws) = ws"
proof (cases ws)
  case Nil
  then show ?thesis by (simp add: segments_def)
next
  case (Cons a as)
  assume p: "\<forall>w \<in> set ws. plain w"
  with Cons have "split_on (CHR ''/'') (join_with ''/'' ws) = ws"
    by (intro split_join) (auto simp: plain_def)
  moreover from p have "filter (\<lambda>q. q \<noteq> []) ws = ws"
    by (auto simp: plain_def intro: filter_True)
  ultimately show ?thesis by (simp add: segments_def)
qed

lemma no_leading_empty: "ws \<noteq> [] \<Longrightarrow> hd ws \<noteq> [] \<Longrightarrow> takeWhile (\<lambda>p. p = []) ws = []"
  by (cases ws) auto

lemma no_trailing_empty:
  "ws \<noteq> [] \<Longrightarrow> last ws \<noteq> [] \<Longrightarrow> takeWhile (\<lambda>p. p = []) (rev ws) = []"
  by (cases ws rule: rev_cases) auto

lemma trim_parts_clean:
  assumes "\<forall>w \<in> set ws. plain w"
  shows "trim_parts (split_on (CHR ''/'') (join_with ''/'' ws)) = ws"
proof (cases ws)
  case Nil
  then show ?thesis by (simp add: trim_parts_def)
next
  case (Cons a as)
  with assms have sj: "split_on (CHR ''/'') (join_with ''/'' ws) = ws"
    by (intro split_join) (auto simp: plain_def)
  from Cons have ne: "ws \<noteq> []" by simp
  with assms have "hd ws \<noteq> []" and "last ws \<noteq> []"
    by (auto simp: plain_def)
  with ne have "takeWhile (\<lambda>p. p = []) ws = []" and "takeWhile (\<lambda>p. p = []) (rev ws) = []"
    by (simp_all add: no_leading_empty no_trailing_empty)
  with sj ne show ?thesis by (simp add: trim_parts_def)
qed

lemma norm_step_pair:
  "norm_step p (u, ks) =
     (if p = ''.'' then (u, ks)
      else if p = ''..'' then (Suc u, ks)
      else if u \<noteq> 0 then (u - 1, ks)
      else (u, p # ks))"
  by (simp add: norm_step_def)

lemma norm_fold_kept:
  "foldr norm_step parts (u, ks)
   = (fst (foldr norm_step parts (u, [])), snd (foldr norm_step parts (u, [])) @ ks)"
proof (induction parts)
  case Nil
  then show ?case by simp
next
  case (Cons p parts)
  obtain u' ks' where r: "foldr norm_step parts (u, []) = (u', ks')"
    by (cases "foldr norm_step parts (u, [])")
  with Cons have "foldr norm_step parts (u, ks) = (u', ks' @ ks)" by simp
  with r show ?case by (simp add: norm_step_pair)
qed

lemma norm_fold_plain:
  "\<forall>w \<in> set xs. w \<noteq> ''.'' \<and> w \<noteq> ''..'' \<Longrightarrow> foldr norm_step xs (0, []) = (0, xs)"
  by (induction xs) (auto simp: norm_step_pair)

lemma normalizeArray_False: "normalizeArray parts False = snd (foldr norm_step parts (0, []))"
  by (simp add: normalizeArray_def case_prod_beta)

lemma normalizeArray_append:
  assumes "\<forall>w \<in> set xs. w \<noteq> ''.'' \<and> w \<noteq> ''..''"
  shows "normalizeArray (parts @ xs) False = normalizeArray parts False @ xs"
proof -
  have "foldr norm_step (parts @ xs) (0, []) = foldr norm_step parts (0, xs)"
    by (simp add: norm_fold_plain [OF assms])
  also have "\<dots> = (fst (foldr norm_step parts (0, [])), snd (foldr norm_step parts (0, [])) @ xs)"
    by (rule norm_fold_kept)
  finally show ?thesis
    by (simp add: normalizeArray_False)
qed

lemma norm_fold_subset: "set (snd (foldr norm_step parts (u, ks))) \<subseteq> set parts \<union> set ks"
proof (induction parts)
  case Nil
  then show ?case by simp
next
  case (Cons p parts)
  obtain u' ks' where r: "foldr norm_step parts (u, ks) = (u', ks')"
    by (cases "foldr norm_step parts (u, ks)")
  with Cons show ?case by (auto simp: norm_step_pair split: if_splits)
qed

lemma normalizeArray_subset: "set (normalizeArray parts False) \<subseteq> set parts"
  using norm_fold_subset [of parts 0 "[]"] by (simp add: normalizeArray_False)

lemma samePartsLength_append: "samePartsLength ns (ns @ xs) = length ns"
  by (induction ns) auto

lemma path_resolve_one:
  assumes "isAbsolute wd" and "p \<noteq> []"
  shows "path_resolve wd [p]
         = CHR ''/'' # join_with ''/'' (normalizeArray (segments (spelled wd p)) False)"
proof -
  from assms(1) have wd: "wd \<noteq> []" by (auto simp: isAbsolute_def)
  have seg: "segments (q @ ''/'') = segments q" for q
    using segments_append [of q "[]"] by (simp add: segments_Nil)
  show ?thesis
  proof (cases "isAbsolute p")
    case True
    with assms show ?thesis
      by (simp add: path_resolve_def spelled_def seg)
  next
    case False
    have "segments (wd @ CHR ''/'' # p @ ''/'') = segments (wd @ CHR ''/'' # p)"
      using seg [of "wd @ CHR ''/'' # p"] by simp
    with False assms wd show ?thesis
      by (simp add: path_resolve_def spelled_def)
  qed
qed

lemma path_relative_below:
  assumes wd: "isAbsolute wd" and rt: "rt \<noteq> []"
    and xs: "\<forall>w \<in> set xs. plain w \<and> w \<noteq> ''.'' \<and> w \<noteq> ''..''"
  shows "path_relative wd rt (rt @ CHR ''/'' # join_with ''/'' xs) = join_with ''/'' xs"
proof -
  let ?to = "rt @ CHR ''/'' # join_with ''/'' xs"
  let ?N = "normalizeArray (segments (spelled wd rt)) False"
  have abs: "isAbsolute ?to = isAbsolute rt"
    using rt by (cases rt) (auto simp: isAbsolute_def)
  have "spelled wd ?to = spelled wd rt @ CHR ''/'' # join_with ''/'' xs"
    by (simp add: spelled_def abs)
  then have "segments (spelled wd ?to) = segments (spelled wd rt) @ xs"
    using xs by (simp add: segments_append segments_join)
  then have to_parts: "normalizeArray (segments (spelled wd ?to)) False = ?N @ xs"
    using xs by (simp add: normalizeArray_append)
  have cleanN: "\<forall>w \<in> set ?N. plain w"
    using normalizeArray_subset segments_plain by blast
  with xs have cleanT: "\<forall>w \<in> set (?N @ xs). plain w" by auto
  have "?to \<noteq> []" using rt by simp
  from path_resolve_one [OF wd rt] path_resolve_one [OF wd this] to_parts
  have "path_relative wd rt ?to
        = join_with ''/'' (replicate (length ?N - samePartsLength ?N (?N @ xs)) ''..''
            @ drop (samePartsLength ?N (?N @ xs)) (?N @ xs))"
    by (simp add: path_relative_def Let_def trim_parts_clean [OF cleanN]
        trim_parts_clean [OF cleanT])
  then show ?thesis by (simp add: samePartsLength_append)
qed

section \<open>Walking the stack\<close>

lemma skip_own: "f = Some (self_file E) \<or> f = Some ''console.js'' \<Longrightarrow> skip E dbg f = Inr True"
  by (auto simp: skip_def)

lemma walk_past_own:
  "set pre \<subseteq> {Some (self_file E), Some ''console.js''}
   \<Longrightarrow> walk E dbg (pre @ tr) cur = walk E dbg tr (if pre = [] then cur else last pre)"
proof (induction pre arbitrary: cur)
  case Nil
  then show ?case by simp
next
  case (Cons f pre)
  then have "skip E dbg f = Inr True" by (intro skip_own) auto
  with Cons show ?case by simp
qed


section \<open>Resolving a name\<close>

lemma basename_nonempty: "path_basename rt = ''connect'' \<Longrightarrow> rt \<noteq> []"
  by (auto simp: path_basename_def)

lemma connect_steps:
  "path_extname ''connect'' = []"
  "replace_first ''connect'' [] [] = ''connect''"
  "path_join [''connect'', ''lib/session.js''] = ''connect/lib/session.js''"
  "path_extname ''connect/lib/session.js'' = ''.js''"
  "replace_first ''connect/lib/session.js'' ''.js'' [] = ''connect/lib/session''"
  "replace_chars {CHR 0x5C, CHR ''/''} (CHR ''.'') ''connect/lib/session'' = ''connect.lib.session''"
  "replace_all ''.lib.'' ''.'' ''connect.lib.session'' = ''connect.session''"
  by (simp_all add: path_extname_def path_basename_def replace_first_def path_join_def
      path_normalize_def segments_def normalizeArray_def norm_step_pair isAbsolute_def
      replace_chars_def)

lemma moduleName_connect_session:
  assumes "path_basename rt = ''connect''" and "isAbsolute (cwd E)"
  shows "moduleName_of E rt (rt @ ''/lib/session.js'') = ''connect.session''"
proof -
  have "path_relative (cwd E) rt (rt @ CHR ''/'' # join_with ''/'' [''lib'', ''session.js''])
        = join_with ''/'' [''lib'', ''session.js'']"
    by (rule path_relative_below [OF assms(2) basename_nonempty [OF assms(1)]])
      (simp add: plain_def)
  then have "path_relative (cwd E) rt (rt @ ''/lib/session.js'') = ''lib/session.js''"
    by simp
  with assms(1) show ?thesis
    by (simp only: moduleName_of_def Let_def connect_steps)
qed

text \<open>
  Claim C3. When the basename of the root is \<open>connect\<close> and the first frame of the stack
  that is neither this module's file nor \<open>console.js\<close> is the file \<open>lib/session.js\<close> under
  the root, \<open>getLoggerName\<close> without a debug name returns exactly \<open>connect.session\<close>.
  (The working directory of a process is an absolute path.)
\<close>

theorem getLoggerName_connect_session:
  assumes "path_basename rt = ''connect''" and "isAbsolute (cwd E)"
    and "tr = pre @ Some (rt @ ''/lib/session.js'') # post"
    and "set pre \<subseteq> {Some (self_file E), Some ''console.js''}"
    and "rt @ ''/lib/session.js'' \<noteq> self_file E"
  shows "getLoggerName E rt None tr = Inr ''connect.session''"
proof -
  have "rt @ ''/lib/session.js'' \<noteq> ''console.js''"
  proof
    assume "rt @ ''/lib/session.js'' = ''console.js''"
    moreover have "CHR ''/'' \<in> set (rt @ ''/lib/session.js'')" by simp
    ultimately have "CHR ''/'' \<in> set ''console.js''" by simp
    then show False by simp
  qed
  with assms(5) have "skip E [] (Some (rt @ ''/lib/session.js'')) = Inr False"
    by (simp add: skip_def)
  then have "walk E [] tr None = Inr (Some (rt @ ''/lib/session.js''))"
    unfolding assms(3) by (simp add: walk_past_own [OF assms(4)])
  then show ?thesis
    by (simp add: getLoggerName_def debug_paths_def moduleName_connect_session [OF assms(1,2)])
qed

text \<open>An instance of C3, with two instrumentation frames in front.\<close>

theorem getLoggerName_connect_session_witness:
  "path_basename ''/home/u/connect'' = ''connect'' \<and> isAbsolute (cwd demo_ext)
   \<and> set [Some (self_file demo_ext), Some ''console.js''] \<subseteq> {Some (self_file demo_ext), Some ''console.js''}
   \<and> ''/home/u/connect'' @ ''/lib/session.js'' \<noteq> self_file demo_ext
   \<and> getLoggerName demo_ext ''/home/u/connect'' None
        [Some (self_file demo_ext), Some ''console.js'', Some ''/home/u/connect/lib/session.js'',
         Some ''/home/u/connect/index.js'']
      = Inr ''connect.session''"
proof -
  have a: "path_basename ''/home/u/connect'' = ''connect''" by (simp add: path_basename_def)
  have b: "isAbsolute (cwd demo_ext)" by (simp add: demo_ext_def isAbsolute_def)
  have c: "set [Some (self_file demo_ext), Some ''console.js'']
           \<subseteq> {Some (self_file demo_ext), Some ''console.js''}" by simp
  have d: "''/home/u/connect'' @ ''/lib/session.js'' \<noteq> self_file demo_ext"
    by (simp add: demo_ext_def)
  have "getLoggerName demo_ext ''/home/u/connect'' None
          ([Some (self_file demo_ext), Some ''console.js'']
           @ Some (''/home/u/connect'' @ ''/lib/session.js'') # [Some ''/home/u/connect/index.js''])
        = Inr ''connect.session''"
    by (rule getLoggerName_connect_session [OF a b refl c d])
  then have "getLoggerName demo_ext ''/home/u/connect'' None
        [Some (self_file demo_ext), Some ''console.js'', Some ''/home/u/connect/lib/session.js'',
         Some ''/home/u/connect/index.js'']
      = Inr ''connect.session''" by simp
  with a b c d show ?thesis by blast
qed

section \<open>The debug name as a suffix\<close>

text \<open>
  Claim C4, as the code has it. With a debug name \<open>d\<close> present, and \<open>file\<close> the file the
  stack walk attributes the call to, \<open>getLoggerName\<close> returns the name resolved from the
  stack unchanged when \<open>d\<close> is a suffix of it as a plain string (line 95:
  \<open>var suffix = debugName\<close>, no dot in front), and with \<open>.d\<close> appended otherwise.
\<close>

theorem getLoggerName_debug_suffix:
  assumes "d \<noteq> []" and "walk E (debug_paths (Some d)) tr None = Inr (Some file)"
  shows "getLoggerName E rt (Some d) tr
         = Inr (if suffix d (moduleName_of E rt file) then moduleName_of E rt file
                else moduleName_of E rt file @ ''.'' @ d)"
  using assms by (simp add: getLoggerName_def endsWith_suffix)

lemma demo_debug_paths:
  "debug_paths (Some ''connect.session'')
   = [''node_modules/debug/lib/debug.js'', ''node_modules/dbug/lib/dbug.js'']"
  by (simp add: debug_paths_def path_join_def path_normalize_def segments_def
      normalizeArray_def norm_step_pair isAbsolute_def)

lemma demo_walk:
  "walk demo_ext [''node_modules/debug/lib/debug.js'', ''node_modules/dbug/lib/dbug.js'']
     [Some (self_file demo_ext), Some ''/home/u/connect/node_modules/dbug/lib/dbug.js'',
      Some ''/home/u/connect/lib/session.js''] None
   = Inr (Some ''/home/u/connect/lib/session.js'')"
  by (simp add: skip_def demo_ext_def endsWith_suffix suffix_def)

lemma demo_moduleName:
  "moduleName_of demo_ext ''/home/u/connect'' ''/home/u/connect/lib/session.js'' = ''connect.session''"
  using moduleName_connect_session [of "''/home/u/connect''" demo_ext]
  by (simp add: path_basename_def demo_ext_def isAbsolute_def)

lemma demo_debug_name:
  "getLoggerName demo_ext ''/home/u/connect'' (Some ''connect.session'')
        [Some (self_file demo_ext), Some ''/home/u/connect/node_modules/dbug/lib/dbug.js'',
         Some ''/home/u/connect/lib/session.js'']
      = Inr ''connect.session''"
  unfolding getLoggerName_def
  apply (simp only: demo_debug_paths demo_walk sum.case option.case Let_def demo_moduleName)
  apply (simp add: endsWith_suffix)
  done

text \<open>An instance of C4: a frame of the \<open>dbug\<close> library is skipped, and the debug name
  equals the resolved name.\<close>

theorem getLoggerName_debug_suffix_witness:
  "''connect.session'' \<noteq> []
   \<and> walk demo_ext (debug_paths (Some ''connect.session''))
        [Some (self_file demo_ext), Some ''/home/u/connect/node_modules/dbug/lib/dbug.js'',
         Some ''/home/u/connect/lib/session.js''] None
      = Inr (Some ''/home/u/connect/lib/session.js'')
   \<and> getLoggerName demo_ext ''/home/u/connect'' (Some ''connect.session'')
        [Some (self_file demo_ext), Some ''/home/u/connect/node_modules/dbug/lib/dbug.js'',
         Some ''/home/u/connect/lib/session.js'']
      = Inr ''connect.session''"
proof -
  let ?tr = "[Some (self_file demo_ext), Some ''/home/u/connect/node_modules/dbug/lib/dbug.js'',
         Some ''/home/u/connect/lib/session.js'']"
  have a: "''connect.session'' \<noteq> []" by simp
  have b: "walk demo_ext (debug_paths (Some ''connect.session'')) ?tr None
           = Inr (Some ''/home/u/connect/lib/session.js'')"
    by (simp only: demo_debug_paths demo_walk)
  from getLoggerName_debug_suffix [OF a b, of "''/home/u/connect''"]
  have "getLoggerName demo_ext ''/home/u/connect'' (Some ''connect.session'') ?tr
        = Inr ''connect.session''"
    by (simp add: demo_moduleName)
  with a b show ?thesis by blast
qed

text \<open>
  Claim C4 as stated fails when the resolved name equals the debug name: it does not end
  with \<open>.connect.session\<close>, yet it is returned unchanged, not with the debug name
  appended.
\<close>

theorem whole_name_suffix_counterexample:
  "moduleName_of demo_ext ''/home/u/connect'' ''/home/u/connect/lib/session.js'' = ''connect.session''
   \<and> \<not> suffix (''.'' @ ''connect.session'') ''connect.session''
   \<and> getLoggerName demo_ext ''/home/u/connect'' (Some ''connect.session'')
        [Some (self_file demo_ext), Some ''/home/u/connect/node_modules/dbug/lib/dbug.js'',
         Some ''/home/u/connect/lib/session.js'']
      = Inr ''connect.session''
   \<and> ''connect.session'' \<noteq> ''connect.session'' @ ''.'' @ ''connect.session''"
proof -
  have "\<not> suffix (''.'' @ ''connect.session'') ''connect.session''"
    using suffix_length_le by fastforce
  moreover have "getLoggerName demo_ext ''/home/u/connect'' (Some ''connect.session'')
        [Some (self_file demo_ext), Some ''/home/u/connect/node_modules/dbug/lib/dbug.js'',
         Some ''/home/u/connect/lib/session.js'']
      = Inr ''connect.session''"
    by (rule demo_debug_name)
  ultimately show ?thesis by (simp add: demo_moduleName)
qed

section \<open>Stacks on which name resolution returns\<close>




section \<open>The ignore list\<close>

lemma indexOf_zero_prefix: "(indexOf name p 0 = 0) = prefix p name"
proof (cases "first_index p name")
  case None
  then have "\<not> prefix p name" using first_index_prefix by fastforce
  with None show ?thesis by (simp add: indexOf_def)
next
  case (Some i)
  show ?thesis
  proof (cases i)
    case 0
    with first_index_bound [OF Some] have "take (length p) name = p" by simp
    then have "prefix p name" by (metis take_is_prefix)
    with Some 0 show ?thesis by (simp add: indexOf_def)
  next
    case (Suc j)
    have "\<not> prefix p name"
    proof
      assume "prefix p name"
      from first_index_prefix [OF this] Some Suc show False by simp
    qed
    with Some Suc show ?thesis by (simp add: indexOf_def)
  qed
qed

lemma is_ignored_prefix: "is_ignored ign name = (\<exists>p \<in> set ign. prefix p name)"
  by (simp add: is_ignored_def list_ex_iff indexOf_zero_prefix)

text \<open>
  Claim C2, as the code has it. \<open>deliver\<close> asks the registry for the logger of the resolved
  name first (line 206). When a configured prefix is a prefix of the name the registry
  reports for that logger, the only other effect is the call of the saved original method,
  with the argument list as \<open>parseDebug\<close> left it, which is the original list when
  debugging is off.
\<close>

theorem ignored_call_goes_to_original:
  assumes "(if isDebugging s then parseDebug E args else (None, args)) = (debugged, args')"
    and "getLoggerName E (root s) (dbugName debugged) tr = Inr name"
    and "p \<in> set (ignore s)" and "prefix p (logger_name E name)"
    and "prop_get (ORIGINAL_METHODS s) m = JFun f"
  shows "deliver E s m args tr = ([GetLogger name, OriginalCall f args'], None)
         \<and> (\<not> isDebugging s \<longrightarrow> args' = args)"
proof -
  from assms(3,4) have "is_ignored (ignore s) (logger_name E name)"
    by (auto simp: is_ignored_prefix)
  with assms(1,2,5) have "deliver E s m args tr = ([GetLogger name, OriginalCall f args'], None)"
    by (simp add: deliver_def dispatch_def)
  moreover from assms(1) have "\<not> isDebugging s \<longrightarrow> args' = args" by auto
  ultimately show ?thesis by simp
qed

section \<open>The coloured message\<close>

lemma colored_example_groups:
  "DEBUG_COLORED_RE (''  '' @ [ESC] @ ''[94mapp:server'' @ [ESC] @ ''[90m listening on port 3000'')
   = Some (''app:server'', '' listening on port 3000'')"
  by (simp add: DEBUG_COLORED_RE_def ESC_def is_digit_def line_terminator_def upt_conv_Cons)

lemma trim_examples:
  "trim ''app:server'' = ''app:server''"
  "trim '' listening on port 3000'' = ''listening on port 3000''"
  "trim '' '' = []" "trim ''hello'' = ''hello''"
  by (simp_all add: trim_def is_space_def)

lemma colon_example: "replace_chars {CHR '':''} (CHR ''.'') ''app:server'' = ''app.server''"
  by (simp add: replace_chars_def)

text \<open>
  Claim C9. The string of two spaces, \<open>ESC[94m\<close>, \<open>app:server\<close>, \<open>ESC[90m\<close> and
  \<open> listening on port 3000\<close> has the coloured shape, with the name and the text as its
  groups; on it \<open>parseDebug\<close> returns the name \<open>app.server\<close> and writes
  \<open>listening on port 3000\<close> over the first argument, for every \<open>chalk.stripColor\<close> that
  leaves the two captured groups, which hold no escape sequence, as they are.
\<close>

theorem parseDebug_colored_example:
  assumes "stripColor E ''app:server'' = ''app:server''"
    and "stripColor E '' listening on port 3000'' = '' listening on port 3000''"
  shows "DEBUG_COLORED_RE
           (''  '' @ [ESC] @ ''[94mapp:server'' @ [ESC] @ ''[90m listening on port 3000'')
         = Some (''app:server'', '' listening on port 3000'')
         \<and> parseDebug E
           (JStr (''  '' @ [ESC] @ ''[94mapp:server'' @ [ESC] @ ''[90m listening on port 3000'') # others)
         = (Some ''app.server'', JStr ''listening on port 3000'' # others)"
proof (rule conjI)
  show "DEBUG_COLORED_RE
          (''  '' @ [ESC] @ ''[94mapp:server'' @ [ESC] @ ''[90m listening on port 3000'')
        = Some (''app:server'', '' listening on port 3000'')"
    by (rule colored_example_groups)
  show "parseDebug E
          (JStr (''  '' @ [ESC] @ ''[94mapp:server'' @ [ESC] @ ''[90m listening on port 3000'') # others)
        = (Some ''app.server'', JStr ''listening on port 3000'' # others)"
    unfolding parseDebug_def to_String_def
    apply (simp only: Let_def jsval.case list.case)
    apply (simp only: colored_example_groups option.case prod.case)
    apply (simp only: assms trim_examples colon_example list_update_code)
    done
qed

section \<open>The state after \<open>overrideConsole\<close>\<close>

lemma install_fields:
  assumes "overrideConsole E options' tr s = Inr s1"
  shows "isDebugging s1 = truthy (opt_debug (given options'))" and "dbug_log s1 = DbugHook"
    and "ignore s1 = (case opt_ignore (given options') of None \<Rightarrow> [] | Some i \<Rightarrow> i)"
    and "root_option (given options') tr = Inr (root s1)"
    and "env_DEBUG s1 = env_DEBUG (setDebug E (opt_debug (given options')) s)"
proof -
  from assms obtain r where r: "root_option (given options') tr = Inr r"
    by (cases "root_option (given options') tr") (simp_all add: overrideConsole_def Let_def)
  with assms have s1: "s1 = (let s = setRoot r s;
                 s = setIgnore (case opt_ignore (given options') of None \<Rightarrow> [] | Some i \<Rightarrow> i) s;
                 s = setDebug E (opt_debug (given options')) s;
                 s = (if \<not> truthy (prop_get (ORIGINAL_METHODS s) ''log'')
                      then s\<lparr>ORIGINAL_METHODS :=
                               copyProperties (console s) (ORIGINAL_METHODS s) METHOD_NAMES\<rparr>
                      else s);
                 k = installs s
             in s\<lparr>console := wrap k (ALIASES @ [''log'', ''dir'']) (console s),
                       installs := Suc k\<rparr>)"
    by (simp add: overrideConsole_def Let_def)
  have env: "env_DEBUG (setDebug E d (setIgnore i (setRoot r s))) = env_DEBUG (setDebug E d s)" for d i
    by (simp add: setDebug_def setRoot_def setIgnore_def Let_def split: option.splits)
  show "isDebugging s1 = truthy (opt_debug (given options'))" and "dbug_log s1 = DbugHook"
    and "ignore s1 = (case opt_ignore (given options') of None \<Rightarrow> [] | Some i \<Rightarrow> i)"
    and "root_option (given options') tr = Inr (root s1)"
    and "env_DEBUG s1 = env_DEBUG (setDebug E (opt_debug (given options')) s)"
    using r env by (simp_all add: s1 Let_def setDebug_frame setRoot_def setIgnore_def)
qed

lemma demo_snapshot:
  "copyProperties c [] METHOD_NAMES = map (\<lambda>m. (m, c m)) METHOD_NAMES"
  by (simp add: copyProperties_def METHOD_NAMES_def)

lemma demo_root: "root_option ((demo_options d)\<lparr>opt_ignore := i\<rparr>) tr = Inr ''/home/u/connect''"
  by (simp add: root_option_def demo_options_def)

lemma demo_setDebug:
  "setDebug demo_ext (JBool b) s
   = s\<lparr>env_DEBUG := (if b then Some ''*''
                      else (case env_DEBUG s of
                              None \<Rightarrow> Some ''false''
                            | Some old \<Rightarrow> if old \<noteq> [] then Some (old @ '',false'') else Some ''false'')),
       isDebugging := b, dbug_log := DbugHook\<rparr>"
  by (cases b) (simp_all add: setDebug_def to_String_def Let_def split: option.splits)

lemma demo_state_installed:
  "overrideConsole demo_ext (Some ((demo_options (JBool b))\<lparr>opt_ignore := Some [''connect'']\<rparr>)) []
     (loaded (console_of METHOD_NAMES))
   = Inr (demo_state b)"
proof -
  let ?o = "(demo_options (JBool b))\<lparr>opt_ignore := Some [''connect'']\<rparr>"
  have r: "root_option ?o [] = Inr ''/home/u/connect''"
    by (rule demo_root)
  have i: "opt_ignore ?o = Some [''connect'']" "opt_debug ?o = JBool b"
    by (simp_all add: demo_options_def)
  show ?thesis
    unfolding overrideConsole_def given_def option.case Let_def r sum.case i
    by (cases b)
      (simp_all add: demo_setDebug setRoot_def setIgnore_def loaded_def prop_get_def
        demo_snapshot demo_state_def)
qed

section \<open>\<open>deliver\<close> with and without parsing\<close>

lemma dbugName_blank: "dbugName (Some []) = None" "dbugName None = None"
  by (simp_all add: dbugName_def)



lemma deliver_off: "\<not> isDebugging s \<Longrightarrow> deliver E s m args tr = dispatch E s m None args tr"
  by (simp add: deliver_def)

lemma deliver_on:
  "isDebugging s \<Longrightarrow> parseDebug E args = (d, args')
   \<Longrightarrow> deliver E s m args tr = dispatch E s m d args' tr"
  by (simp add: deliver_def)

lemma parseDebug_colored:
  assumes "DEBUG_COLORED_RE str = Some (g1, g2)"
  shows "parseDebug E (JStr str # others)
         = (Some (replace_chars {CHR '':''} (CHR ''.'') (trim (stripColor E g1))),
            JStr (trim (stripColor E g2)) # others)"
  using assms by (simp add: parseDebug_def to_String_def)


lemma colored_message_groups:
  "DEBUG_COLORED_RE colored_message = Some (''app:server'', '' listening on port 3000'')"
  unfolding colored_message_def by (rule colored_example_groups)

lemma strip_sgr_examples:
  "strip_sgr ''app:server'' = ''app:server''"
  "strip_sgr '' listening on port 3000'' = '' listening on port 3000''"
  "strip_sgr '' '' = '' ''" "strip_sgr ''hello'' = ''hello''"
  by (simp_all add: ESC_def)

lemma demo_strip: "stripColor demo_ext = strip_sgr"
  by (simp add: demo_ext_def)

text \<open>An instance of C9, with \<open>strip_sgr\<close> as the colour stripper and a second argument
  that is left alone.\<close>

theorem parseDebug_colored_example_witness:
  "stripColor demo_ext ''app:server'' = ''app:server''
   \<and> stripColor demo_ext '' listening on port 3000'' = '' listening on port 3000''
   \<and> DEBUG_COLORED_RE
         (''  '' @ [ESC] @ ''[94mapp:server'' @ [ESC] @ ''[90m listening on port 3000'')
       = Some (''app:server'', '' listening on port 3000'')
   \<and> parseDebug demo_ext
         (JStr (''  '' @ [ESC] @ ''[94mapp:server'' @ [ESC] @ ''[90m listening on port 3000'') # [JNum 7])
       = (Some ''app.server'', JStr ''listening on port 3000'' # [JNum 7])"
proof -
  have a: "stripColor demo_ext ''app:server'' = ''app:server''"
    and b: "stripColor demo_ext '' listening on port 3000'' = '' listening on port 3000''"
    by (simp_all only: demo_strip strip_sgr_examples)
  note c = parseDebug_colored_example [OF a b, of "[JNum 7]"]
  from a b c show ?thesis by (intro conjI) (elim conjE, assumption)+
qed




section \<open>The \<open>debug\<close> option\<close>

text \<open>
  Claim C8, as the code has it. After \<open>overrideConsole\<close> with a falsy \<open>debug\<close> option the
  debugging flag is off, and it stays off through \<open>restoreConsole\<close>: every \<open>deliver\<close> skips
  \<open>parseDebug\<close> and hands the arguments on as they came. The hook \<open>dbug.__log\<close> is set all
  the same (line 199 is not under a condition), and \<open>process.env.DEBUG\<close> is left alone when
  the option is the empty string.
\<close>

theorem falsy_debug_disables_parsing:
  assumes "\<not> truthy (opt_debug (given options'))"
    and "overrideConsole E options' tr s = Inr s1"
  shows "\<not> isDebugging s1 \<and> \<not> isDebugging (restoreConsole s1) \<and> dbug_log s1 = DbugHook
         \<and> (\<forall>m args tr'. deliver E s1 m args tr' = dispatch E s1 m None args tr')
         \<and> (opt_debug (given options') = JStr [] \<longrightarrow> env_DEBUG s1 = env_DEBUG s)"
proof (intro conjI allI impI)
  from install_fields(1) [OF assms(2)] assms(1) show off: "\<not> isDebugging s1" by simp
  then show "\<not> isDebugging (restoreConsole s1)" by (simp add: restoreConsole_def)
  show "dbug_log s1 = DbugHook" by (rule install_fields(2) [OF assms(2)])
  show "deliver E s1 m args tr' = dispatch E s1 m None args tr'" for m args tr'
    using off by (rule deliver_off)
  show "env_DEBUG s1 = env_DEBUG s" if "opt_debug (given options') = JStr []"
    using install_fields(5) [OF assms(2)] that by (simp add: setDebug_def to_String_def)
qed

lemma demo_given:
  "opt_debug (given (Some ((demo_options d)\<lparr>opt_ignore := i\<rparr>))) = d"
  by (simp add: given_def demo_options_def)

text \<open>An instance of C8: \<open>debug: false\<close>, then a call whose argument has the coloured
  shape.\<close>

theorem falsy_debug_disables_parsing_witness:
  "\<not> truthy (opt_debug (given (Some ((demo_options (JBool False))\<lparr>opt_ignore := Some [''connect'']\<rparr>))))
   \<and> overrideConsole demo_ext (Some ((demo_options (JBool False))\<lparr>opt_ignore := Some [''connect'']\<rparr>)) []
        (loaded (console_of METHOD_NAMES)) = Inr (demo_state False)
   \<and> \<not> isDebugging (demo_state False)
   \<and> deliver demo_ext (demo_state False) ''log'' [JStr colored_message] demo_trace
     = dispatch demo_ext (demo_state False) ''log'' None [JStr colored_message] demo_trace"
proof -
  let ?o = "Some ((demo_options (JBool False))\<lparr>opt_ignore := Some [''connect'']\<rparr>)"
  have a: "\<not> truthy (opt_debug (given ?o))" by (simp only: demo_given truthy.simps) simp
  note b = demo_state_installed [of False]
  note c = falsy_debug_disables_parsing [OF a b]
  from c have c1: "\<not> isDebugging (demo_state False)" by (rule conjunct1)
  from c have "\<forall>m args tr'. deliver demo_ext (demo_state False) m args tr'
                 = dispatch demo_ext (demo_state False) m None args tr'"
    by (elim conjE)
  then have c2: "deliver demo_ext (demo_state False) ''log'' [JStr colored_message] demo_trace
     = dispatch demo_ext (demo_state False) ''log'' None [JStr colored_message] demo_trace"
    by (elim allE)
  from a b c1 c2 show ?thesis by (intro conjI)
qed

text \<open>
  Claim C8 as stated fails for \<open>debug: false\<close>: \<open>String(false)\<close> is a non-empty string, so
  \<open>process.env.DEBUG\<close>, unset before, is \<open>false\<close> afterwards, and \<open>dbug.__log\<close> is the
  module's hook, not the library's own function.
\<close>

theorem falsy_debug_sets_environment_counterexample:
  "overrideConsole demo_ext (Some ((demo_options (JBool False))\<lparr>opt_ignore := Some [''connect'']\<rparr>)) []
        (loaded (console_of METHOD_NAMES)) = Inr (demo_state False)
   \<and> env_DEBUG (loaded (console_of METHOD_NAMES)) = None
   \<and> dbug_log (loaded (console_of METHOD_NAMES)) = DbugOriginal
   \<and> env_DEBUG (demo_state False) = Some ''false''
   \<and> dbug_log (demo_state False) = DbugHook"
proof (intro conjI)
  show "overrideConsole demo_ext (Some ((demo_options (JBool False))\<lparr>opt_ignore := Some [''connect'']\<rparr>)) []
        (loaded (console_of METHOD_NAMES)) = Inr (demo_state False)"
    by (rule demo_state_installed)
qed (simp_all add: loaded_def demo_state_def)

section \<open>A call from an ignored module\<close>

lemma demo_self: "self_file demo_ext = ''/app/node_modules/intel/lib/console.js''"
  by (simp add: demo_ext_def)

lemma demo_walk_plain:
  "walk demo_ext [] demo_trace None = Inr (Some ''/home/u/connect/lib/session.js'')"
  by (simp add: demo_trace_def skip_def demo_self)

lemma demo_walk_debug:
  "walk demo_ext [''node_modules/debug/lib/debug.js'', ''node_modules/dbug/lib/dbug.js'']
     demo_trace None
   = Inr (Some ''/home/u/connect/lib/session.js'')"
  by (simp add: demo_trace_def skip_def demo_self endsWith_suffix suffix_def)

lemma debug_paths_some:
  "d \<noteq> [] \<Longrightarrow> debug_paths (Some d)
     = [''node_modules/debug/lib/debug.js'', ''node_modules/dbug/lib/dbug.js'']"
  by (simp add: debug_paths_def path_join_def path_normalize_def segments_def
      normalizeArray_def norm_step_pair isAbsolute_def)

lemma demo_plain_name:
  "getLoggerName demo_ext ''/home/u/connect'' None demo_trace = Inr ''connect.session''"
  unfolding getLoggerName_def
  by (simp only: debug_paths_def option.case demo_walk_plain sum.case Let_def demo_moduleName)

lemma not_suffix_app: "\<not> suffix ''app.server'' ''connect.session''"
  by (simp add: suffix_def)

lemma demo_debug_name_app:
  "getLoggerName demo_ext ''/home/u/connect'' (Some ''app.server'') demo_trace
   = Inr ''connect.session.app.server''"
proof -
  have d: "debug_paths (Some ''app.server'')
           = [''node_modules/debug/lib/debug.js'', ''node_modules/dbug/lib/dbug.js'']"
    by (rule debug_paths_some) simp
  show ?thesis
    unfolding getLoggerName_def
    apply (simp only: d demo_walk_debug sum.case option.case Let_def demo_moduleName)
    apply (simp add: endsWith_suffix not_suffix_app)
    done
qed

lemma demo_saved_log: "prop_get (ORIGINAL_METHODS (demo_state b)) ''log'' = JFun (Native 5)"
  by (simp add: demo_state_def prop_get_def METHOD_NAMES_def console_of_def)

lemma demo_state_fields:
  "root (demo_state b) = ''/home/u/connect''" "ignore (demo_state b) = [''connect'']"
  "isDebugging (demo_state b) = b" "logger_name demo_ext n = n"
  by (simp_all add: demo_state_def demo_ext_def)

lemma demo_ignored:
  "is_ignored [''connect''] ''connect.session''"
  "is_ignored [''connect''] ''connect.session.app.server''"
  by (simp_all add: is_ignored_prefix)

lemma dbugName_app: "dbugName (Some ''app.server'') = Some ''app.server''"
  by (simp add: dbugName_def getLoggerLevel_def DBUG_LEVELS_def endsWith_suffix suffix_def
      indexOf_def replace_first_def)

lemma demo_parse_colored:
  "parseDebug demo_ext [JStr colored_message]
   = (Some ''app.server'', [JStr ''listening on port 3000''])"
  by (simp only: parseDebug_colored [OF colored_message_groups] demo_strip strip_sgr_examples
      trim_examples colon_example)

lemma demo_dispatch_plain:
  "dispatch demo_ext (demo_state b) ''log'' None [JStr ''hi''] demo_trace
   = ([GetLogger ''connect.session'', OriginalCall (Native 5) [JStr ''hi'']], None)"
  unfolding dispatch_def
  by (simp only: dbugName_blank demo_state_fields demo_plain_name sum.case Let_def
      demo_ignored if_True demo_saved_log jsval.case)

lemma demo_dispatch_colored:
  "dispatch demo_ext (demo_state b) ''log'' (Some ''app.server'')
     [JStr ''listening on port 3000''] demo_trace
   = ([GetLogger ''connect.session.app.server'',
       OriginalCall (Native 5) [JStr ''listening on port 3000'']], None)"
  unfolding dispatch_def
  by (simp only: dbugName_app demo_state_fields demo_debug_name_app sum.case Let_def
      demo_ignored if_True demo_saved_log jsval.case)

text \<open>
  Claim C2 as stated fails in two ways. With \<open>connect\<close> on the ignore list, a call from
  \<open>lib/session.js\<close> is forwarded to the saved \<open>console.log\<close>, but only after
  \<open>intel.getLogger\<close> was called for the resolved name: the registry is touched. And with
  debugging on, the argument that is forwarded is the one \<open>parseDebug\<close> wrote, not the
  original.
\<close>

theorem ignored_call_touches_registry_counterexample:
  "ignore (demo_state False) = [''connect'']
   \<and> deliver demo_ext (demo_state False) ''log'' [JStr ''hi''] demo_trace
     = ([GetLogger ''connect.session'', OriginalCall (Native 5) [JStr ''hi'']], None)
   \<and> deliver demo_ext (demo_state True) ''log'' [JStr colored_message] demo_trace
     = ([GetLogger ''connect.session.app.server'',
         OriginalCall (Native 5) [JStr ''listening on port 3000'']], None)
   \<and> [JStr ''listening on port 3000''] \<noteq> [JStr colored_message]"
proof (intro conjI)
  show "ignore (demo_state False) = [''connect'']" by (rule demo_state_fields)
  have "\<not> isDebugging (demo_state False)" by (simp add: demo_state_fields)
  from deliver_off [OF this]
  show "deliver demo_ext (demo_state False) ''log'' [JStr ''hi''] demo_trace
     = ([GetLogger ''connect.session'', OriginalCall (Native 5) [JStr ''hi'']], None)"
    by (simp only: demo_dispatch_plain)
  have "isDebugging (demo_state True)" by (simp add: demo_state_fields)
  from deliver_on [OF this demo_parse_colored]
  show "deliver demo_ext (demo_state True) ''log'' [JStr colored_message] demo_trace
     = ([GetLogger ''connect.session.app.server'',
         OriginalCall (Native 5) [JStr ''listening on port 3000'']], None)"
    by (simp only: demo_dispatch_colored)
  show "[JStr ''listening on port 3000''] \<noteq> [JStr colored_message]"
    by (simp add: colored_message_def)
qed

text \<open>An instance of C2: debugging on, a message of the coloured shape, \<open>connect\<close> on the
  ignore list.\<close>

theorem ignored_call_goes_to_original_witness:
  "(if isDebugging (demo_state True) then parseDebug demo_ext [JStr colored_message]
    else (None, [JStr colored_message]))
   = (Some ''app.server'', [JStr ''listening on port 3000''])
   \<and> getLoggerName demo_ext (root (demo_state True)) (dbugName (Some ''app.server'')) demo_trace
     = Inr ''connect.session.app.server''
   \<and> ''connect'' \<in> set (ignore (demo_state True))
   \<and> prefix ''connect'' (logger_name demo_ext ''connect.session.app.server'')
   \<and> prop_get (ORIGINAL_METHODS (demo_state True)) ''log'' = JFun (Native 5)
   \<and> deliver demo_ext (demo_state True) ''log'' [JStr colored_message] demo_trace
     = ([GetLogger ''connect.session.app.server'',
         OriginalCall (Native 5) [JStr ''listening on port 3000'']], None)"
proof -
  have a: "(if isDebugging (demo_state True) then parseDebug demo_ext [JStr colored_message]
            else (None, [JStr colored_message]))
           = (Some ''app.server'', [JStr ''listening on port 3000''])"
    by (simp only: demo_state_fields if_True demo_parse_colored)
  have b: "getLoggerName demo_ext (root (demo_state True)) (dbugName (Some ''app.server''))
             demo_trace = Inr ''connect.session.app.server''"
    by (simp only: demo_state_fields dbugName_app demo_debug_name_app)
  have c: "''connect'' \<in> set (ignore (demo_state True))"
    by (simp add: demo_state_fields)
  have d: "prefix ''connect'' (logger_name demo_ext ''connect.session.app.server'')"
    by (simp add: demo_state_fields)
  note e = demo_saved_log [of True]
  from ignored_call_goes_to_original [OF a b c d e]
  have f: "deliver demo_ext (demo_state True) ''log'' [JStr colored_message] demo_trace
     = ([GetLogger ''connect.session.app.server'',
         OriginalCall (Native 5) [JStr ''listening on port 3000'']], None)"
    by (rule conjunct1)
  from a b c d e f show ?thesis by (intro conjI)
qed

end
